theory Spec2Isabelle
  imports Complex_Main
begin

section \<open>Numbers\<close>

text \<open>
  The TypeScript type \<open>number\<close>.  Finite values are idealised as exact reals (rounding
  and overflow to infinity are not modelled, and negative zero is identified with zero);
  the three special values that a division by zero produces are kept, so that the
  engine's behaviour on a zero baseline is visible in the model.
\<close>

datatype number = Num real | PosInf | NegInf | NaN

text \<open>The operator \<open>/\<close> on numbers.\<close>

fun ndiv :: "number \<Rightarrow> number \<Rightarrow> number" where
  "ndiv NaN _ = NaN"
| "ndiv _ NaN = NaN"
| "ndiv (Num a) (Num b) =
     (if b = 0 then (if a = 0 then NaN else if 0 < a then PosInf else NegInf)
      else Num (a / b))"
| "ndiv (Num a) PosInf = Num 0"
| "ndiv (Num a) NegInf = Num 0"
| "ndiv PosInf (Num b) = (if 0 \<le> b then PosInf else NegInf)"
| "ndiv NegInf (Num b) = (if 0 \<le> b then NegInf else PosInf)"
| "ndiv PosInf PosInf = NaN"
| "ndiv PosInf NegInf = NaN"
| "ndiv NegInf PosInf = NaN"
| "ndiv NegInf NegInf = NaN"

text \<open>The operator \<open>-\<close> on numbers.\<close>

fun nsub :: "number \<Rightarrow> number \<Rightarrow> number" where
  "nsub NaN _ = NaN"
| "nsub _ NaN = NaN"
| "nsub (Num a) (Num b) = Num (a - b)"
| "nsub (Num a) PosInf = NegInf"
| "nsub (Num a) NegInf = PosInf"
| "nsub PosInf (Num b) = PosInf"
| "nsub NegInf (Num b) = NegInf"
| "nsub PosInf PosInf = NaN"
| "nsub PosInf NegInf = PosInf"
| "nsub NegInf PosInf = NegInf"
| "nsub NegInf NegInf = NaN"

text \<open>The operator \<open>*\<close> on numbers.\<close>

fun nmul :: "number \<Rightarrow> number \<Rightarrow> number" where
  "nmul NaN _ = NaN"
| "nmul _ NaN = NaN"
| "nmul (Num a) (Num b) = Num (a * b)"
| "nmul (Num a) PosInf = (if a = 0 then NaN else if 0 < a then PosInf else NegInf)"
| "nmul (Num a) NegInf = (if a = 0 then NaN else if 0 < a then NegInf else PosInf)"
| "nmul PosInf (Num b) = (if b = 0 then NaN else if 0 < b then PosInf else NegInf)"
| "nmul NegInf (Num b) = (if b = 0 then NaN else if 0 < b then NegInf else PosInf)"
| "nmul PosInf PosInf = PosInf"
| "nmul PosInf NegInf = NegInf"
| "nmul NegInf PosInf = NegInf"
| "nmul NegInf NegInf = PosInf"

text \<open>The comparison \<open>>=\<close> on numbers: false as soon as one side is NaN.\<close>

fun nge :: "number \<Rightarrow> number \<Rightarrow> bool" where
  "nge NaN _ = False"
| "nge _ NaN = False"
| "nge (Num a) (Num b) = (b \<le> a)"
| "nge PosInf _ = True"
| "nge _ NegInf = True"
| "nge _ PosInf = False"
| "nge NegInf _ = False"

text \<open>
  \<open>Math.pow\<close>, case by case as ECMA-262 lists them (Number::exponentiate), with the
  finite case computed on the reals.
\<close>

definition isOddInteger :: "real \<Rightarrow> bool" where
  "isOddInteger e = (of_int \<lfloor>e\<rfloor> = e \<and> odd \<lfloor>e\<rfloor>)"

fun npow :: "number \<Rightarrow> number \<Rightarrow> number" where
  "npow _ NaN = NaN"
| "npow b (Num e) =
     (if e = 0 then Num 1
      else case b of
        NaN \<Rightarrow> NaN
      | PosInf \<Rightarrow> (if 0 < e then PosInf else Num 0)
      | NegInf \<Rightarrow>
          (if 0 < e then (if isOddInteger e then NegInf else PosInf) else Num 0)
      | Num x \<Rightarrow>
          (if x = 0 then (if 0 < e then Num 0 else PosInf)
           else if 0 < x then Num (x powr e)
           else if of_int \<lfloor>e\<rfloor> = e then Num (x powi \<lfloor>e\<rfloor>)
           else NaN))"
| "npow NaN PosInf = NaN"
| "npow NaN NegInf = NaN"
| "npow (Num x) PosInf =
     (if 1 < \<bar>x\<bar> then PosInf else if \<bar>x\<bar> = 1 then NaN else Num 0)"
| "npow (Num x) NegInf =
     (if 1 < \<bar>x\<bar> then Num 0 else if \<bar>x\<bar> = 1 then NaN else PosInf)"
| "npow PosInf PosInf = PosInf"
| "npow NegInf PosInf = PosInf"
| "npow PosInf NegInf = Num 0"
| "npow NegInf NegInf = Num 0"

section \<open>Dates\<close>

text \<open>
  A \<open>Date\<close> is its time value: the milliseconds since 1970-01-01T00:00:00Z, an integer
  (invalid dates are rejected at ingestion).  Time values and their differences are exact
  integers.  The calendar functions are those of ECMA-262, section "Time Values and Time
  Range"; local time is taken to be UTC.
\<close>

type_synonym Date = int

definition msPerDay :: int where
  "msPerDay = 86400000"

definition Day :: "int \<Rightarrow> int" where
  "Day t = t div msPerDay"

definition TimeWithinDay :: "int \<Rightarrow> int" where
  "TimeWithinDay t = t mod msPerDay"

definition DaysInYear :: "int \<Rightarrow> int" where
  "DaysInYear y =
     (if y mod 4 \<noteq> 0 then 365
      else if y mod 100 \<noteq> 0 then 366
      else if y mod 400 \<noteq> 0 then 365
      else 366)"

definition DayFromYear :: "int \<Rightarrow> int" where
  "DayFromYear y =
     365 * (y - 1970) + (y - 1969) div 4 - (y - 1901) div 100 + (y - 1601) div 400"

text \<open>
  \<open>YearFromTime\<close> is the largest year whose first day is not after the given day.  It is
  computed by a search from an estimate; the search terminates because \<open>DayFromYear\<close> is
  strictly increasing, which the next lemmas show.
\<close>

lemma div_succ_step:
  fixes a n :: int
  assumes "0 < n"
  shows "(a + 1) div n = a div n + (if (a + 1) mod n = 0 then 1 else 0)"
proof -
  have a: "a = n * (a div n) + a mod n" by simp
  have r: "0 \<le> a mod n" "a mod n < n" using assms by simp_all
  show ?thesis
  proof (cases "a mod n = n - 1")
    case True
    moreover have "n * (a div n + 1) = n * (a div n) + n" by (simp add: algebra_simps)
    ultimately have e: "a + 1 = n * (a div n + 1) + 0" using a by linarith
    have "(a + 1) div n = a div n + 1"
      using e assms by (intro int_div_pos_eq [where r = 0]) simp_all
    moreover have "(a + 1) mod n = 0"
      using e assms by (intro int_mod_pos_eq [where q = "a div n + 1"]) simp_all
    ultimately show ?thesis by simp
  next
    case False
    then have lt: "a mod n + 1 < n" using r by simp
    have e: "a + 1 = n * (a div n) + (a mod n + 1)" using a by linarith
    have "(a + 1) div n = a div n"
      using e lt r by (intro int_div_pos_eq [where r = "a mod n + 1"]) simp_all
    moreover have "(a + 1) mod n = a mod n + 1"
      using e lt r by (intro int_mod_pos_eq [where q = "a div n"]) simp_all
    ultimately show ?thesis using r by simp
  qed
qed

lemma mod_shift: "(y - n * k) mod n = y mod (n::int)"
proof -
  have "(y - n * k) mod n = (y + n * (- k)) mod n" by simp
  also have "\<dots> = y mod n" by (rule mod_mult_self2)
  finally show ?thesis .
qed

lemma mod_400_100: assumes "y mod 400 = (0::int)" shows "y mod 100 = 0"
proof -
  from assms have "400 dvd y" by (simp add: mod_eq_0_iff_dvd)
  moreover have "(100::int) dvd 400" by simp
  ultimately have "100 dvd y" by (meson dvd_trans)
  then show ?thesis by simp
qed

lemma mod_100_4: assumes "y mod 100 = (0::int)" shows "y mod 4 = 0"
proof -
  from assms have "100 dvd y" by (simp add: mod_eq_0_iff_dvd)
  moreover have "(4::int) dvd 100" by simp
  ultimately have "4 dvd y" by (meson dvd_trans)
  then show ?thesis by simp
qed

lemma DayFromYear_Suc: "DayFromYear (y + 1) = DayFromYear y + DaysInYear y"
proof -
  have a: "(y + 1 - 1969) div 4 = (y - 1969) div 4 + (if y mod 4 = 0 then 1 else 0)"
    using div_succ_step [of 4 "y - 1969"] mod_shift [of y 4 492] by (simp add: algebra_simps)
  have b: "(y + 1 - 1901) div 100 = (y - 1901) div 100 + (if y mod 100 = 0 then 1 else 0)"
    using div_succ_step [of 100 "y - 1901"] mod_shift [of y 100 19] by (simp add: algebra_simps)
  have c: "(y + 1 - 1601) div 400 = (y - 1601) div 400 + (if y mod 400 = 0 then 1 else 0)"
    using div_succ_step [of 400 "y - 1601"] mod_shift [of y 400 4] by (simp add: algebra_simps)
  show ?thesis
    unfolding DayFromYear_def DaysInYear_def a b c
    using mod_400_100 [of y] mod_100_4 [of y] by auto
qed

lemma DaysInYear_cases: "DaysInYear y = 365 \<or> DaysInYear y = 366"
  by (simp add: DaysInYear_def)

lemma DayFromYear_pred_less: "DayFromYear (y - 1) < DayFromYear y"
  using DayFromYear_Suc [of "y - 1"] DaysInYear_cases [of "y - 1"] by auto

function yearDown :: "int \<Rightarrow> int \<Rightarrow> int" where
  "yearDown d y = (if d < DayFromYear y then yearDown d (y - 1) else y)"
  by pat_completeness auto
termination
proof (relation "measure (\<lambda>(d, y). nat (DayFromYear y - d))")
  show "wf (measure (\<lambda>(d, y). nat (DayFromYear y - d)))" by simp
next
  fix d y :: int
  assume "d < DayFromYear y"
  then show "((d, y - 1), (d, y)) \<in> measure (\<lambda>(d, y). nat (DayFromYear y - d))"
    using DayFromYear_pred_less [of y] by simp
qed

function yearUp :: "int \<Rightarrow> int \<Rightarrow> int" where
  "yearUp d y = (if DayFromYear (y + 1) \<le> d then yearUp d (y + 1) else y)"
  by pat_completeness auto
termination
proof (relation "measure (\<lambda>(d, y). nat (d + 1 - DayFromYear y))")
  show "wf (measure (\<lambda>(d, y). nat (d + 1 - DayFromYear y)))" by simp
next
  fix d y :: int
  assume "DayFromYear (y + 1) \<le> d"
  then show "((d, y + 1), (d, y)) \<in> measure (\<lambda>(d, y). nat (d + 1 - DayFromYear y))"
    using DayFromYear_pred_less [of "y + 1"] by simp
qed

declare yearDown.simps [simp del] yearUp.simps [simp del]

definition YearFromDay :: "int \<Rightarrow> int" where
  "YearFromDay d = yearUp d (yearDown d (1970 + d div 365))"

definition YearFromTime :: "int \<Rightarrow> int" where
  "YearFromTime t = YearFromDay (Day t)"

definition InLeapYear :: "int \<Rightarrow> int" where
  "InLeapYear t = (if DaysInYear (YearFromTime t) = 366 then 1 else 0)"

definition DayWithinYear :: "int \<Rightarrow> int" where
  "DayWithinYear t = Day t - DayFromYear (YearFromTime t)"

definition MonthFromTime :: "int \<Rightarrow> int" where
  "MonthFromTime t =
     (let d = DayWithinYear t; l = InLeapYear t in
      if d < 31 then 0
      else if d < 59 + l then 1
      else if d < 90 + l then 2
      else if d < 120 + l then 3
      else if d < 151 + l then 4
      else if d < 181 + l then 5
      else if d < 212 + l then 6
      else if d < 243 + l then 7
      else if d < 273 + l then 8
      else if d < 304 + l then 9
      else if d < 334 + l then 10
      else 11)"

definition DateFromTime :: "int \<Rightarrow> int" where
  "DateFromTime t =
     (let d = DayWithinYear t; l = InLeapYear t; m = MonthFromTime t in
      if m = 0 then d + 1
      else if m = 1 then d - 30
      else if m = 2 then d - 58 - l
      else if m = 3 then d - 89 - l
      else if m = 4 then d - 119 - l
      else if m = 5 then d - 150 - l
      else if m = 6 then d - 180 - l
      else if m = 7 then d - 211 - l
      else if m = 8 then d - 242 - l
      else if m = 9 then d - 272 - l
      else if m = 10 then d - 303 - l
      else d - 333 - l)"

text \<open>
  \<open>MakeDay\<close>: the day number of the first day of month \<open>mn\<close> of year \<open>ym\<close> is
  \<open>DayFromYear ym + DaysBeforeMonth ym mn\<close>; days beyond the end of the month are counted on
  into the following months.
\<close>

definition DaysBeforeMonth :: "int \<Rightarrow> int \<Rightarrow> int" where
  "DaysBeforeMonth y m =
     (let l = (if DaysInYear y = 366 then 1 else 0) in
      if m = 0 then 0
      else if m = 1 then 31
      else if m = 2 then 59 + l
      else if m = 3 then 90 + l
      else if m = 4 then 120 + l
      else if m = 5 then 151 + l
      else if m = 6 then 181 + l
      else if m = 7 then 212 + l
      else if m = 8 then 243 + l
      else if m = 9 then 273 + l
      else if m = 10 then 304 + l
      else 334 + l)"

definition MakeDay :: "int \<Rightarrow> int \<Rightarrow> int \<Rightarrow> int" where
  "MakeDay year month dt =
     (let ym = year + month div 12; mn = month mod 12 in
      DayFromYear ym + DaysBeforeMonth ym mn + dt - 1)"

definition MakeDate :: "int \<Rightarrow> int \<Rightarrow> int" where
  "MakeDate day time = day * msPerDay + time"

subsection \<open>The methods of \<open>Date\<close> the engine calls\<close>

text \<open>
  Each setter returns the new time value; the source's \<open>new Date(endDate)\<close> copy is the
  value itself.  \<open>TimeClip\<close> (the range check at \<open>8.64e15\<close> ms) is not modelled.
\<close>

definition getTime :: "Date \<Rightarrow> int" where
  "getTime t = t"

definition getFullYear :: "Date \<Rightarrow> int" where
  "getFullYear t = YearFromTime t"

definition getMonth :: "Date \<Rightarrow> int" where
  "getMonth t = MonthFromTime t"

definition getDate :: "Date \<Rightarrow> int" where
  "getDate t = DateFromTime t"

definition setMonth :: "Date \<Rightarrow> int \<Rightarrow> Date" where
  "setMonth t month =
     MakeDate (MakeDay (YearFromTime t) month (DateFromTime t)) (TimeWithinDay t)"

definition setFullYear :: "Date \<Rightarrow> int \<Rightarrow> Date" where
  "setFullYear t year =
     MakeDate (MakeDay year (MonthFromTime t) (DateFromTime t)) (TimeWithinDay t)"

definition setDate :: "Date \<Rightarrow> int \<Rightarrow> Date" where
  "setDate t dt =
     MakeDate (MakeDay (YearFromTime t) (MonthFromTime t) dt) (TimeWithinDay t)"

text \<open>\<open>new Date(Date.UTC(year, monthIndex, day))\<close>: midnight of a calendar day.\<close>

definition DateUTC :: "int \<Rightarrow> int \<Rightarrow> int \<Rightarrow> Date" where
  "DateUTC year monthIndex day = MakeDate (MakeDay year monthIndex day) 0"

section \<open>dateUtils\<close>

text \<open>\<open>calculateYearFrac\<close>: Excel's YEARFRAC, basis 0 (US 30/360).\<close>

definition calculateYearFrac :: "Date \<Rightarrow> Date \<Rightarrow> number" where
  "calculateYearFrac startDate0 endDate0 =
     (let (startDate, endDate) =
            (if startDate0 > endDate0 then (endDate0, startDate0) else (startDate0, endDate0));
          startYear = getFullYear startDate;
          startMonth = getMonth startDate + 1;
          startDay = getDate startDate;
          endYear = getFullYear endDate;
          endMonth = getMonth endDate + 1;
          endDay = getDate endDate;
          startDay = (if startDay = 31 then 30 else startDay);
          endDay = (if endDay = 31 \<and> startDay \<ge> 30 then 30 else endDay);
          days = (endYear - startYear) * 360 + (endMonth - startMonth) * 30 + (endDay - startDay)
      in ndiv (Num (of_int days)) (Num 360))"

text \<open>
  \<open>findClosestDate\<close>: the loop over \<open>dates[1..]\<close> carries \<open>closestDate\<close> and
  \<open>minDifference\<close>.
\<close>

fun closestScan :: "Date \<Rightarrow> Date list \<Rightarrow> Date \<Rightarrow> int \<Rightarrow> Date" where
  "closestScan targetDate [] closestDate minDifference = closestDate"
| "closestScan targetDate (currentDate # rest) closestDate minDifference =
     (let difference = \<bar>getTime currentDate - getTime targetDate\<bar> in
      if difference < minDifference
      then closestScan targetDate rest currentDate difference
      else closestScan targetDate rest closestDate minDifference)"

definition findClosestDate :: "Date \<Rightarrow> Date list \<Rightarrow> Date option" where
  "findClosestDate targetDate dates =
     (case dates of
        [] \<Rightarrow> None
      | d0 # rest \<Rightarrow> Some (closestScan targetDate rest d0 \<bar>getTime d0 - getTime targetDate\<bar>))"

datatype Period = P1m | P3m | Pytd | P1y | P3y | P5y | P10y | P15y | P20y | Psi | Pcustom

text \<open>\<open>calculateStartDate\<close>; the \<open>default\<close> branch returns \<open>new Date(0)\<close>.\<close>

fun calculateStartDate :: "Period \<Rightarrow> Date \<Rightarrow> Date" where
  "calculateStartDate P1m endDate = setMonth endDate (getMonth endDate - 1)"
| "calculateStartDate P3m endDate = setMonth endDate (getMonth endDate - 3)"
| "calculateStartDate Pytd endDate = setDate (setMonth endDate 0) 1"
| "calculateStartDate P1y endDate = setFullYear endDate (getFullYear endDate - 1)"
| "calculateStartDate P3y endDate = setFullYear endDate (getFullYear endDate - 3)"
| "calculateStartDate P5y endDate = setFullYear endDate (getFullYear endDate - 5)"
| "calculateStartDate P10y endDate = setFullYear endDate (getFullYear endDate - 10)"
| "calculateStartDate P15y endDate = setFullYear endDate (getFullYear endDate - 15)"
| "calculateStartDate P20y endDate = setFullYear endDate (getFullYear endDate - 20)"
| "calculateStartDate Psi endDate = 0"
| "calculateStartDate Pcustom endDate = 0"

section \<open>dataProcessor\<close>

text \<open>
  The chart's points are declared first, so that the unqualified field names \<open>date\<close> and
  \<open>val\<close> below are those of \<open>DataPoint\<close> (the source's field \<open>value\<close>).
\<close>

record ChartPoint =
  date :: int
  val :: number
  actualValue :: number
  indexedValue :: number
  annualizedReturnSinceInception :: number

record DataPoint =
  date :: Date
  val :: number

record CustomPeriod =
  startDate :: Date
  endDate :: Date

record ProcessedData =
  filteredData :: "DataPoint list"
  startDate :: "Date option"
  endDate :: "Date option"
  startValue :: "number option"
  endValue :: "number option"
  returnValue :: "number option"
  isAnnualized :: bool
  inceptionStartDate :: "Date option"
  inceptionStartValue :: "number option"

text \<open>Reading a property of \<open>undefined\<close> throws.\<close>

datatype error = TypeError

definition emptyResult :: ProcessedData where
  "emptyResult =
     \<lparr>filteredData = [], startDate = None, endDate = None, startValue = None,
      endValue = None, returnValue = None, isAnnualized = False,
      inceptionStartDate = None, inceptionStartValue = None\<rparr>"

text \<open>Step 3 of \<open>processData\<close>: the pair \<open>(endDate, targetStartDate)\<close>.\<close>

definition targetRange ::
  "DataPoint list \<Rightarrow> DataPoint \<Rightarrow> Period \<Rightarrow> CustomPeriod option \<Rightarrow> Date \<times> Date" where
  "targetRange sortedData latestData selectedPeriod customPeriod =
     (if selectedPeriod = Pcustom \<and> customPeriod \<noteq> None
      then (CustomPeriod.endDate (the customPeriod), CustomPeriod.startDate (the customPeriod))
      else (date latestData,
            if selectedPeriod = Psi then date (sortedData ! 0)
            else calculateStartDate selectedPeriod (date latestData)))"

text \<open>Step 7: the annualization decision.\<close>

definition decideAnnualized :: "Period \<Rightarrow> Date \<Rightarrow> Date \<Rightarrow> bool" where
  "decideAnnualized selectedPeriod closestStartDate closestEndDate =
     (if selectedPeriod = Pcustom
      then nge (calculateYearFrac closestStartDate closestEndDate) (Num 1)
      else selectedPeriod \<in> set [P1y, P3y, P5y, P10y, P15y, P20y, Psi])"

text \<open>Step 8: the return.\<close>

definition computeReturn :: "bool \<Rightarrow> Date \<Rightarrow> Date \<Rightarrow> number \<Rightarrow> number \<Rightarrow> number" where
  "computeReturn annualized closestStartDate closestEndDate startValue' endValue' =
     (if annualized
      then (let years = calculateYearFrac closestStartDate closestEndDate in
            if nge years (ndiv (Num 1) (Num 12))
            then nsub (npow (ndiv endValue' startValue') (ndiv (Num 1) years)) (Num 1)
            else nsub (ndiv endValue' startValue') (Num 1))
      else nsub (ndiv endValue' startValue') (Num 1))"

text \<open>
  \<open>processData\<close>.  The wall clock that the source reads with \<open>new Date()\<close> is the first
  argument \<open>today\<close>; the sort is the stable sort by time value.
\<close>

definition processData ::
  "Date \<Rightarrow> DataPoint list \<Rightarrow> Period \<Rightarrow> CustomPeriod option \<Rightarrow> error + ProcessedData" where
  "processData today data selectedPeriod customPeriod =
     (if data = [] then Inr emptyResult
      else
        let sortedData = sort_key date data in
        case find (\<lambda>item. date item \<le> today) (rev sortedData) of
          None \<Rightarrow> Inr emptyResult
        | Some latestData \<Rightarrow>
            (let (endDate', targetStartDate) =
                   targetRange sortedData latestData selectedPeriod customPeriod;
                 allDates = map date sortedData
             in
             (case findClosestDate targetStartDate allDates of
               None \<Rightarrow> Inr emptyResult
             | Some closestStartDate \<Rightarrow>
                (case findClosestDate endDate' allDates of
                   None \<Rightarrow> Inr emptyResult
                 | Some closestEndDate \<Rightarrow>
                     let filteredData' =
                           filter (\<lambda>item. date item \<ge> closestStartDate \<and> date item \<le> closestEndDate)
                             sortedData
                     in
                     if filteredData' = [] then Inl TypeError
                     else
                       let startValue' = val (hd filteredData');
                           endValue' = val (last filteredData');
                           annualized =
                             decideAnnualized selectedPeriod closestStartDate closestEndDate;
                           returnValue' =
                             computeReturn annualized closestStartDate closestEndDate
                               startValue' endValue'
                       in Inr \<lparr>filteredData = filteredData',
                               startDate = Some closestStartDate,
                               endDate = Some closestEndDate,
                               startValue = Some startValue',
                               endValue = Some endValue',
                               returnValue = Some returnValue',
                               isAnnualized = annualized,
                               inceptionStartDate = Some (date (sortedData ! 0)),
                               inceptionStartValue = Some (val (sortedData ! 0))\<rparr>))))"

section \<open>ChartDisplay\<close>

text \<open>
  The chart rows that \<open>ChartDisplay\<close> computes from the filtered series \<open>data\<close> and the
  full series \<open>fullDataset\<close>.  The early return on an empty \<open>data\<close> (the "No data
  available" panel) computes no row; reading \<open>sortedFullDataset[0].value\<close> of an empty
  full series throws.
\<close>

definition chartData :: "DataPoint list \<Rightarrow> DataPoint list \<Rightarrow> error + ChartPoint list" where
  "chartData data fullDataset =
     (if data = [] then Inr []
      else
        let selectedPeriodStartValue = val (data ! 0);
            sortedFullDataset = sort_key date fullDataset
        in
        if sortedFullDataset = [] then Inl TypeError
        else
          let inceptionStartValue' = val (sortedFullDataset ! 0);
              inceptionStartDate' = date (sortedFullDataset ! 0)
          in
          Inr (map (\<lambda>point.
                 let indexedValue' = nmul (ndiv (val point) selectedPeriodStartValue) (Num 100);
                     yearsFromInception = calculateYearFrac inceptionStartDate' (date point);
                     annualizedReturnSinceInception' =
                       (if nge yearsFromInception (ndiv (Num 1) (Num 12))
                        then nsub (npow (ndiv (val point) inceptionStartValue')
                                     (ndiv (Num 1) yearsFromInception)) (Num 1)
                        else nsub (ndiv (val point) inceptionStartValue') (Num 1))
                 in \<lparr>ChartPoint.date = getTime (date point),
                     val = indexedValue',
                     actualValue = val point,
                     indexedValue = indexedValue',
                     annualizedReturnSinceInception = annualizedReturnSinceInception'\<rparr>)
               data))"

section \<open>Definitions for the statements and the examples\<close>

text \<open>The definitions of this section are not part of the program.\<close>

definition isFinite :: "number \<Rightarrow> bool" where
  "isFinite x = (case x of Num _ \<Rightarrow> True | _ \<Rightarrow> False)"

text \<open>The number of days of month \<open>m\<close> (0 to 11) of year \<open>y\<close>.\<close>

definition DaysInMonth :: "int \<Rightarrow> int \<Rightarrow> int" where
  "DaysInMonth y m =
     (if m = 1 then (if DaysInYear y = 366 then 29 else 28)
      else if m = 3 \<or> m = 5 \<or> m = 8 \<or> m = 10 then 30
      else 31)"

text \<open>
  For the proofs: index \<open>k\<close> holds a candidate at minimal distance from \<open>t\<close>, and every
  earlier candidate is strictly farther.
\<close>

definition closestAt :: "Date \<Rightarrow> Date list \<Rightarrow> nat \<Rightarrow> bool" where
  "closestAt t ds k =
     (k < length ds
      \<and> (\<forall>j < length ds. \<bar>ds ! k - t\<bar> \<le> \<bar>ds ! j - t\<bar>)
      \<and> (\<forall>j < k. \<bar>ds ! k - t\<bar> < \<bar>ds ! j - t\<bar>))"

text \<open>
  For the statement of claim C7: the number of months that a calendar-offset preset goes
  back (a year is twelve months); 0 for the other periods.
\<close>

fun monthsBack :: "Period \<Rightarrow> int" where
  "monthsBack P1m = 1"
| "monthsBack P3m = 3"
| "monthsBack P1y = 12"
| "monthsBack P3y = 36"
| "monthsBack P5y = 60"
| "monthsBack P10y = 120"
| "monthsBack P15y = 180"
| "monthsBack P20y = 240"
| "monthsBack _ = 0"

text \<open>
  For the statement of claim C6: the rows that steps 1 to 5 of \<open>processData\<close> keep, as a
  function of the inputs; no row where \<open>processData\<close> returns early.
\<close>

definition resolvedWindow ::
  "Date \<Rightarrow> DataPoint list \<Rightarrow> Period \<Rightarrow> CustomPeriod option \<Rightarrow> DataPoint list" where
  "resolvedWindow today data selectedPeriod customPeriod =
     (if data = [] then []
      else
        let sortedData = sort_key date data in
        case find (\<lambda>item. date item \<le> today) (rev sortedData) of
          None \<Rightarrow> []
        | Some latestData \<Rightarrow>
            (let (endDate', targetStartDate) =
                   targetRange sortedData latestData selectedPeriod customPeriod;
                 allDates = map date sortedData
             in
             (case findClosestDate targetStartDate allDates of
                None \<Rightarrow> []
              | Some closestStartDate \<Rightarrow>
                  (case findClosestDate endDate' allDates of
                     None \<Rightarrow> []
                   | Some closestEndDate \<Rightarrow>
                       filter (\<lambda>item. date item \<ge> closestStartDate \<and> date item \<le> closestEndDate)
                         sortedData))))"

text \<open>
  A series for the worked examples: 100 on 2020-01-01, 105 on 2020-12-01, 110 on 2021-01-01.
\<close>

definition exampleSeries :: "DataPoint list" where
  "exampleSeries =
     [\<lparr>date = DateUTC 2020 0 1, val = Num 100\<rparr>,
      \<lparr>date = DateUTC 2020 11 1, val = Num 105\<rparr>,
      \<lparr>date = DateUTC 2021 0 1, val = Num 110\<rparr>]"

text \<open>A series whose first value is 0.\<close>

definition zeroBaselineSeries :: "DataPoint list" where
  "zeroBaselineSeries =
     [\<lparr>date = DateUTC 2020 0 1, val = Num 0\<rparr>,
      \<lparr>date = DateUTC 2021 0 1, val = Num 110\<rparr>]"

section \<open>Calendar facts\<close>

lemma yearDown_le: "DayFromYear (yearDown d y) \<le> d"
proof (induction d y rule: yearDown.induct)
  case (1 d y)
  then show ?case by (subst yearDown.simps) simp
qed

lemma yearUp_bounds:
  "DayFromYear y \<le> d \<Longrightarrow> DayFromYear (yearUp d y) \<le> d \<and> d < DayFromYear (yearUp d y + 1)"
proof (induction d y rule: yearUp.induct)
  case (1 d y)
  show ?case
  proof (cases "DayFromYear (y + 1) \<le> d")
    case True
    then show ?thesis using 1 by (subst (1 2) yearUp.simps) simp
  next
    case False
    then show ?thesis using 1 by (subst (1 2) yearUp.simps) simp
  qed
qed

lemma YearFromDay_bounds:
  "DayFromYear (YearFromDay d) \<le> d \<and> d < DayFromYear (YearFromDay d + 1)"
  unfolding YearFromDay_def by (rule yearUp_bounds [OF yearDown_le])

lemma DayFromYear_mono_aux: "DayFromYear y \<le> DayFromYear (y + int n)"
proof (induction n)
  case 0
  show ?case by simp
next
  case (Suc n)
  have "DayFromYear (y + int n) < DayFromYear (y + int n + 1)"
    using DayFromYear_pred_less [of "y + int n + 1"] by simp
  then show ?case using Suc by (simp add: algebra_simps)
qed

lemma DayFromYear_mono: "y \<le> y' \<Longrightarrow> DayFromYear y \<le> DayFromYear y'"
  using DayFromYear_mono_aux [of y "nat (y' - y)"] by simp

lemma YearFromDay_unique:
  assumes "DayFromYear y \<le> d" and "d < DayFromYear (y + 1)"
  shows "YearFromDay d = y"
proof (rule ccontr)
  assume ne: "YearFromDay d \<noteq> y"
  let ?z = "YearFromDay d"
  have b: "DayFromYear ?z \<le> d" "d < DayFromYear (?z + 1)"
    using YearFromDay_bounds [of d] by simp_all
  show False
  proof (cases "?z < y")
    case True
    then have "DayFromYear (?z + 1) \<le> DayFromYear y" by (intro DayFromYear_mono) simp
    then show False using b assms by simp
  next
    case False
    then have "y + 1 \<le> ?z" using ne by simp
    then have "DayFromYear (y + 1) \<le> DayFromYear ?z" by (rule DayFromYear_mono)
    then show False using b assms by simp
  qed
qed

lemma month_cases:
  fixes m :: int
  assumes "0 \<le> m" "m < 12"
  obtains "m = 0" | "m = 1" | "m = 2" | "m = 3" | "m = 4" | "m = 5"
    | "m = 6" | "m = 7" | "m = 8" | "m = 9" | "m = 10" | "m = 11"
proof -
  have a: "m < 4 \<Longrightarrow> m = 0 \<or> m = 1 \<or> m = 2 \<or> m = 3" using assms by linarith
  have b: "4 \<le> m \<Longrightarrow> m < 8 \<Longrightarrow> m = 4 \<or> m = 5 \<or> m = 6 \<or> m = 7" by linarith
  have c: "8 \<le> m \<Longrightarrow> m = 8 \<or> m = 9 \<or> m = 10 \<or> m = 11" using assms by linarith
  have "m < 4 \<or> (4 \<le> m \<and> m < 8) \<or> 8 \<le> m" by linarith
  then show ?thesis using a b c that by blast
qed

lemma DayWithinYear_bounds: "0 \<le> DayWithinYear t \<and> DayWithinYear t < DaysInYear (YearFromTime t)"
  using YearFromDay_bounds [of "Day t"] DayFromYear_Suc [of "YearFromTime t"]
  by (simp add: DayWithinYear_def YearFromTime_def)

lemma MonthFromTime_bounds: "0 \<le> MonthFromTime t \<and> MonthFromTime t < 12"
  by (simp add: MonthFromTime_def Let_def)

lemma MonthFromTime_range:
  assumes "MonthFromTime t = m"
  shows "DaysBeforeMonth (YearFromTime t) m \<le> DayWithinYear t
       \<and> DayWithinYear t < DaysBeforeMonth (YearFromTime t) m + DaysInMonth (YearFromTime t) m"
  using assms DayWithinYear_bounds [of t] DaysInYear_cases [of "YearFromTime t"]
  unfolding MonthFromTime_def Let_def InLeapYear_def
  by (auto split: if_splits simp add: DaysBeforeMonth_def DaysInMonth_def)

lemma DateFromTime_eq:
  "DateFromTime t = DayWithinYear t - DaysBeforeMonth (YearFromTime t) (MonthFromTime t) + 1"
proof -
  obtain m where m: "MonthFromTime t = m" by simp
  have "0 \<le> m" "m < 12" using MonthFromTime_bounds [of t] m by simp_all
  then show ?thesis
    by (cases m rule: month_cases)
       (simp_all add: DateFromTime_def m DaysBeforeMonth_def InLeapYear_def Let_def)
qed

lemma Day_decompose:
  "Day t = MakeDay (YearFromTime t) (MonthFromTime t) (DateFromTime t)"
proof -
  have m: "MonthFromTime t div 12 = 0" "MonthFromTime t mod 12 = MonthFromTime t"
    using MonthFromTime_bounds [of t] by simp_all
  show ?thesis
    by (simp add: MakeDay_def m Let_def DayWithinYear_def DateFromTime_eq)
qed

lemma DateFromTime_bounds:
  "1 \<le> DateFromTime t \<and> DateFromTime t \<le> DaysInMonth (YearFromTime t) (MonthFromTime t)"
  using MonthFromTime_range [of t "MonthFromTime t"] by (simp add: DateFromTime_eq)

lemma Day_MakeDate: "0 \<le> tm \<Longrightarrow> tm < msPerDay \<Longrightarrow> Day (MakeDate d tm) = d"
  by (simp add: Day_def MakeDate_def msPerDay_def)

lemma TimeWithinDay_MakeDate:
  "0 \<le> tm \<Longrightarrow> tm < msPerDay \<Longrightarrow> TimeWithinDay (MakeDate d tm) = tm"
  by (simp add: TimeWithinDay_def MakeDate_def msPerDay_def)

lemma TimeWithinDay_bounds: "0 \<le> TimeWithinDay t \<and> TimeWithinDay t < msPerDay"
  by (simp add: TimeWithinDay_def msPerDay_def)

lemma MakeDate_Day: "MakeDate (Day t) (TimeWithinDay t) = t"
  by (simp add: MakeDate_def Day_def TimeWithinDay_def)

lemma DaysBeforeMonth_range:
  assumes "0 \<le> m" "m < 12" "1 \<le> dt" "dt \<le> DaysInMonth y m"
  shows "0 \<le> DaysBeforeMonth y m + dt - 1 \<and> DaysBeforeMonth y m + dt - 1 < DaysInYear y"
  using assms(1,2)
proof (cases m rule: month_cases)
qed (use assms(3,4) DaysInYear_cases [of y] in \<open>auto simp add: DaysBeforeMonth_def DaysInMonth_def\<close>)

lemma MakeDay_in_range:
  assumes "0 \<le> m" "m < 12"
  shows "MakeDay y m dt = DayFromYear y + DaysBeforeMonth y m + dt - 1"
  using assms by (simp add: MakeDay_def)

lemma MonthFromTime_of_offset:
  assumes "0 \<le> m" "m < 12" "1 \<le> dt" "dt \<le> DaysInMonth y m"
    and "YearFromTime t = y" and "DayWithinYear t = DaysBeforeMonth y m + dt - 1"
  shows "MonthFromTime t = m"
  using assms(1,2)
proof (cases m rule: month_cases)
qed (use assms(3-6) DaysInYear_cases [of y] in
    \<open>auto simp add: MonthFromTime_def InLeapYear_def DaysBeforeMonth_def DaysInMonth_def\<close>)

lemma calendar_compose:
  assumes "0 \<le> m" "m < 12" "1 \<le> dt" "dt \<le> DaysInMonth y m"
    and "Day t = MakeDay y m dt"
  shows "YearFromTime t = y \<and> MonthFromTime t = m \<and> DateFromTime t = dt"
proof -
  have d: "Day t = DayFromYear y + (DaysBeforeMonth y m + dt - 1)"
    using assms(5) MakeDay_in_range [OF assms(1,2)] by simp
  have r: "0 \<le> DaysBeforeMonth y m + dt - 1" "DaysBeforeMonth y m + dt - 1 < DaysInYear y"
    using DaysBeforeMonth_range [OF assms(1-4)] by simp_all
  have y: "YearFromTime t = y"
    unfolding YearFromTime_def
    by (rule YearFromDay_unique) (use d r DayFromYear_Suc [of y] in simp_all)
  have w: "DayWithinYear t = DaysBeforeMonth y m + dt - 1"
    using d y by (simp add: DayWithinYear_def)
  have mo: "MonthFromTime t = m"
    by (rule MonthFromTime_of_offset [OF assms(1-4) y w])
  have "DateFromTime t = dt"
    by (simp add: DateFromTime_eq y w mo)
  then show ?thesis using y mo by simp
qed

lemma DateUTC_components:
  assumes "0 \<le> m" "m < 12" "1 \<le> d" "d \<le> DaysInMonth y m"
  shows "getFullYear (DateUTC y m d) = y" "getMonth (DateUTC y m d) = m"
    "getDate (DateUTC y m d) = d"
proof -
  have "Day (DateUTC y m d) = MakeDay y m d"
    unfolding DateUTC_def by (rule Day_MakeDate) (simp_all add: msPerDay_def)
  from calendar_compose [OF assms this]
  show "getFullYear (DateUTC y m d) = y" "getMonth (DateUTC y m d) = m"
    "getDate (DateUTC y m d) = d"
    by (simp_all add: getFullYear_def getMonth_def getDate_def)
qed

lemma TimeWithinDay_DateUTC: "TimeWithinDay (DateUTC y m d) = 0"
  by (simp add: DateUTC_def TimeWithinDay_def MakeDate_def)

lemma DaysInMonth_bounds: "28 \<le> DaysInMonth y m \<and> DaysInMonth y m \<le> 31"
  by (simp add: DaysInMonth_def)

lemma DaysBeforeMonth_Suc:
  assumes "0 \<le> m" "m < 11"
  shows "DaysBeforeMonth y (m + 1) = DaysBeforeMonth y m + DaysInMonth y m"
proof -
  have "m < 12" using assms by simp
  with assms(1) show ?thesis
    by (cases m rule: month_cases)
       (use assms(2) DaysInYear_cases [of y] in
         \<open>auto simp add: DaysBeforeMonth_def DaysInMonth_def\<close>)
qed

lemma month_overflow:
  assumes "0 \<le> m" "m < 12" "DaysInMonth y m < d" "d \<le> 31"
  shows "m < 11" and "d - DaysInMonth y m \<le> DaysInMonth y (m + 1)"
  using assms(1,2)
  by (cases m rule: month_cases;
      use assms(3,4) DaysInMonth_bounds [of y "m + 1"] in \<open>auto simp add: DaysInMonth_def split: if_splits\<close>)+

lemma MakeDay_normalise: "MakeDay y m d = MakeDay (y + m div 12) (m mod 12) d"
  by (simp add: MakeDay_def)

lemma MakeDay_components:
  assumes "1 \<le> d" "d \<le> 31" and "Day t = MakeDay y m d"
  shows "YearFromTime t = y + m div 12
       \<and> (if d \<le> DaysInMonth (y + m div 12) (m mod 12)
          then MonthFromTime t = m mod 12 \<and> DateFromTime t = d
          else MonthFromTime t = m mod 12 + 1
             \<and> DateFromTime t = d - DaysInMonth (y + m div 12) (m mod 12))"
proof -
  let ?ty = "y + m div 12" and ?tm = "m mod 12"
  have tm: "0 \<le> ?tm" "?tm < 12" by simp_all
  have day: "Day t = MakeDay ?ty ?tm d" using assms(3) MakeDay_normalise [of y m d] by simp
  show ?thesis
  proof (cases "d \<le> DaysInMonth ?ty ?tm")
    case True
    from calendar_compose [OF tm assms(1) True day] True show ?thesis by simp
  next
    case False
    then have over: "DaysInMonth ?ty ?tm < d" by simp
    have lt: "?tm < 11" and fit: "d - DaysInMonth ?ty ?tm \<le> DaysInMonth ?ty (?tm + 1)"
      using month_overflow [OF tm over assms(2)] by simp_all
    have "MakeDay ?ty ?tm d = DayFromYear ?ty + DaysBeforeMonth ?ty ?tm + d - 1"
      by (rule MakeDay_in_range [OF tm])
    also have "\<dots> = DayFromYear ?ty + DaysBeforeMonth ?ty (?tm + 1)
        + (d - DaysInMonth ?ty ?tm) - 1"
      using DaysBeforeMonth_Suc [OF tm(1) lt, of ?ty] by simp
    also have "\<dots> = MakeDay ?ty (?tm + 1) (d - DaysInMonth ?ty ?tm)"
      using lt tm(1) by (intro MakeDay_in_range [symmetric]) simp_all
    finally have day': "Day t = MakeDay ?ty (?tm + 1) (d - DaysInMonth ?ty ?tm)"
      using day by simp
    have "0 \<le> ?tm + 1" "?tm + 1 < 12" "1 \<le> d - DaysInMonth ?ty ?tm"
      using lt tm(1) over by simp_all
    from calendar_compose [OF this fit day'] False show ?thesis by simp
  qed
qed

lemma DateFromTime_1_31: "1 \<le> DateFromTime t \<and> DateFromTime t \<le> 31"
  using DateFromTime_bounds [of t] DaysInMonth_bounds [of "YearFromTime t" "MonthFromTime t"]
  by simp

lemma Day_setMonth: "Day (setMonth t m) = MakeDay (YearFromTime t) m (DateFromTime t)"
  unfolding setMonth_def using TimeWithinDay_bounds [of t] by (intro Day_MakeDate) simp_all

lemma Day_setFullYear: "Day (setFullYear t y) = MakeDay y (MonthFromTime t) (DateFromTime t)"
  unfolding setFullYear_def using TimeWithinDay_bounds [of t] by (intro Day_MakeDate) simp_all

lemma Day_setDate: "Day (setDate t d) = MakeDay (YearFromTime t) (MonthFromTime t) d"
  unfolding setDate_def using TimeWithinDay_bounds [of t] by (intro Day_MakeDate) simp_all

lemma TimeWithinDay_setters:
  "TimeWithinDay (setMonth t m) = TimeWithinDay t"
  "TimeWithinDay (setFullYear t y) = TimeWithinDay t"
  "TimeWithinDay (setDate t d) = TimeWithinDay t"
  unfolding setMonth_def setFullYear_def setDate_def
  using TimeWithinDay_bounds [of t] by (simp_all add: TimeWithinDay_MakeDate)

lemma DaysBeforeMonth_december: "DaysBeforeMonth y 11 + 31 = DaysInYear y"
  using DaysInYear_cases [of y] by (auto simp add: DaysBeforeMonth_def)

lemma MakeDay_next_month:
  "MakeDay y (m + 1) d = MakeDay y m d + DaysInMonth (y + m div 12) (m mod 12)"
proof (cases "m mod 12 = 11")
  case True
  have e: "m + 1 = 12 * (m div 12 + 1) + 0"
    using True mult_div_mod_eq [of 12 m] by (simp add: algebra_simps)
  have md: "(m + 1) mod 12 = 0"
    using e by (intro int_mod_pos_eq [where q = "m div 12 + 1"]) simp_all
  have dv: "(m + 1) div 12 = m div 12 + 1"
    using e by (intro int_div_pos_eq [where r = 0]) simp_all
  have "MakeDay y (m + 1) d = DayFromYear (y + m div 12 + 1) + d - 1"
    by (simp add: MakeDay_def md dv DaysBeforeMonth_def add.assoc Let_def)
  also have "\<dots> = DayFromYear (y + m div 12) + DaysInYear (y + m div 12) + d - 1"
    by (simp add: DayFromYear_Suc)
  also have "\<dots> = DayFromYear (y + m div 12) + DaysBeforeMonth (y + m div 12) 11 + d - 1 + 31"
    using DaysBeforeMonth_december [of "y + m div 12"] by simp
  also have "\<dots> = MakeDay y m d + DaysInMonth (y + m div 12) (m mod 12)"
    by (simp add: MakeDay_def True DaysInMonth_def Let_def)
  finally show ?thesis .
next
  case False
  have r: "0 \<le> m mod 12" "m mod 12 < 12" by simp_all
  with False have lt: "m mod 12 < 11" by simp
  have e: "m + 1 = 12 * (m div 12) + (m mod 12 + 1)" by simp
  have md: "(m + 1) mod 12 = m mod 12 + 1"
    using e lt r by (intro int_mod_pos_eq [where q = "m div 12"]) simp_all
  have dv: "(m + 1) div 12 = m div 12"
    using e lt r by (intro int_div_pos_eq [where r = "m mod 12 + 1"]) simp_all
  show ?thesis
    using DaysBeforeMonth_Suc [OF r(1) lt, of "y + m div 12"]
    by (simp add: MakeDay_def dv md Let_def)
qed

lemma MakeDay_month_mono_aux: "MakeDay y m d \<le> MakeDay y (m + int n) d"
proof (induction n)
  case 0
  show ?case by simp
next
  case (Suc n)
  have "MakeDay y (m + int n) d \<le> MakeDay y (m + int n + 1) d"
    using MakeDay_next_month [of y "m + int n" d]
      DaysInMonth_bounds [of "y + (m + int n) div 12" "(m + int n) mod 12"]
    by simp
  with Suc show ?case by (simp add: algebra_simps)
qed

lemma MakeDay_month_mono: "m \<le> m' \<Longrightarrow> MakeDay y m d \<le> MakeDay y m' d"
  using MakeDay_month_mono_aux [of y m d "nat (m' - m)"] by simp

lemma MakeDate_mono: "d \<le> d' \<Longrightarrow> MakeDate d tm \<le> MakeDate d' tm"
  by (simp add: MakeDate_def msPerDay_def)

lemma le_from_Day:
  assumes "Day s \<le> Day e" "TimeWithinDay s = TimeWithinDay e"
  shows "s \<le> e"
proof -
  have "s = MakeDate (Day s) (TimeWithinDay s)" by (simp add: MakeDate_Day)
  also have "\<dots> \<le> MakeDate (Day e) (TimeWithinDay s)"
    using assms(1) by (rule MakeDate_mono)
  also have "\<dots> = e" by (simp add: assms(2) MakeDate_Day)
  finally show ?thesis .
qed

section \<open>The year fraction\<close>

lemma calculateYearFrac_ordered:
  assumes "s \<le> e"
  shows "calculateYearFrac s e =
     Num (of_int ((getFullYear e - getFullYear s) * 360
                  + (getMonth e - getMonth s) * 30
                  + ((if getDate e = 31 \<and> (if getDate s = 31 then 30 else getDate s) \<ge> 30
                      then 30 else getDate e)
                     - (if getDate s = 31 then 30 else getDate s))) / 360)"
  using assms by (simp add: calculateYearFrac_def Let_def)

lemma calculateYearFrac_swap: "e < s \<Longrightarrow> calculateYearFrac s e = calculateYearFrac e s"
  by (simp add: calculateYearFrac_def)

lemma calculateYearFrac_finite: "\<exists>y. calculateYearFrac s e = Num y"
proof (cases "s \<le> e")
  case True
  then show ?thesis by (simp only: calculateYearFrac_ordered) blast
next
  case False
  then have "e \<le> s" "e < s" by simp_all
  then show ?thesis by (simp only: calculateYearFrac_swap calculateYearFrac_ordered) blast
qed

lemma DateUTC_2015_03_31: "DateUTC 2015 2 31 = 1427760000000"
  by (simp add: DateUTC_def MakeDate_def MakeDay_def DayFromYear_def DaysBeforeMonth_def DaysInYear_def msPerDay_def)

lemma DateUTC_2025_03_31: "DateUTC 2025 2 31 = 1743379200000"
  by (simp add: DateUTC_def MakeDate_def MakeDay_def DayFromYear_def DaysBeforeMonth_def DaysInYear_def msPerDay_def)

text \<open>
  Claim C1.  For dates \<open>s \<le> e\<close>, \<open>calculateYearFrac\<close> returns the 30/360 day count over
  360: the start day 31 becomes 30 first, then the end day 31 becomes 30 when the adjusted
  start day is at least 30.  From 2015-03-31 to 2025-03-31 it returns exactly 10.
\<close>

theorem calculateYearFrac_30_360:
  "(s \<le> e \<longrightarrow>
      calculateYearFrac s e =
        Num (of_int ((getFullYear e - getFullYear s) * 360
                     + (getMonth e - getMonth s) * 30
                     + ((if getDate e = 31 \<and> (if getDate s = 31 then 30 else getDate s) \<ge> 30
                         then 30 else getDate e)
                        - (if getDate s = 31 then 30 else getDate s))) / 360))
   \<and> calculateYearFrac (DateUTC 2015 2 31) (DateUTC 2025 2 31) = Num 10"
proof
  show "s \<le> e \<longrightarrow>
      calculateYearFrac s e =
        Num (of_int ((getFullYear e - getFullYear s) * 360
                     + (getMonth e - getMonth s) * 30
                     + ((if getDate e = 31 \<and> (if getDate s = 31 then 30 else getDate s) \<ge> 30
                         then 30 else getDate e)
                        - (if getDate s = 31 then 30 else getDate s))) / 360)"
    using calculateYearFrac_ordered by blast
next
  have le: "DateUTC 2015 2 31 \<le> DateUTC 2025 2 31" by (simp add: DateUTC_2015_03_31 DateUTC_2025_03_31)
  have c1: "getFullYear (DateUTC 2015 2 31) = 2015" "getMonth (DateUTC 2015 2 31) = 2"
    "getDate (DateUTC 2015 2 31) = 31"
    by (rule DateUTC_components; simp add: DaysInMonth_def)+
  have c2: "getFullYear (DateUTC 2025 2 31) = 2025" "getMonth (DateUTC 2025 2 31) = 2"
    "getDate (DateUTC 2025 2 31) = 31"
    by (rule DateUTC_components; simp add: DaysInMonth_def)+
  show "calculateYearFrac (DateUTC 2015 2 31) (DateUTC 2025 2 31) = Num 10"
    by (simp add: calculateYearFrac_ordered [OF le] c1 c2)
qed

theorem calculateYearFrac_30_360_witness:
  "DateUTC 2020 1 29 \<le> DateUTC 2021 1 28
   \<and> calculateYearFrac (DateUTC 2020 1 29) (DateUTC 2021 1 28) = Num (359 / 360)"
proof -
  have le: "DateUTC 2020 1 29 \<le> DateUTC 2021 1 28"
    by (simp add: DateUTC_def MakeDate_def MakeDay_def DayFromYear_def DaysBeforeMonth_def DaysInYear_def msPerDay_def)
  have c1: "getFullYear (DateUTC 2020 1 29) = 2020" "getMonth (DateUTC 2020 1 29) = 1"
    "getDate (DateUTC 2020 1 29) = 29"
    by (rule DateUTC_components; simp add: DaysInMonth_def DaysInYear_def)+
  have c2: "getFullYear (DateUTC 2021 1 28) = 2021" "getMonth (DateUTC 2021 1 28) = 1"
    "getDate (DateUTC 2021 1 28) = 28"
    by (rule DateUTC_components; simp add: DaysInMonth_def DaysInYear_def)+
  show ?thesis
    using le calculateYearFrac_30_360 [of "DateUTC 2020 1 29" "DateUTC 2021 1 28"]
    by (simp add: c1 c2)
qed

section \<open>The closest date\<close>

lemma closestAt_snoc_keep:
  assumes "closestAt t pre i" "\<not> \<bar>d - t\<bar> < \<bar>pre ! i - t\<bar>"
  shows "closestAt t (pre @ [d]) i"
  using assms unfolding closestAt_def
  by (auto simp add: nth_append less_Suc_eq)

lemma closestAt_snoc_new:
  assumes "closestAt t pre i" "\<bar>d - t\<bar> < \<bar>pre ! i - t\<bar>"
  shows "closestAt t (pre @ [d]) (length pre)"
  using assms unfolding closestAt_def
  by (fastforce simp add: nth_append less_Suc_eq)

lemma closestScan_invariant:
  assumes "closestAt t pre i"
  shows "\<exists>k. closestAt t (pre @ rest) k
           \<and> closestScan t rest (pre ! i) \<bar>pre ! i - t\<bar> = (pre @ rest) ! k"
  using assms
proof (induction rest arbitrary: pre i)
  case Nil
  then show ?case by auto
next
  case (Cons d rest)
  show ?case
  proof (cases "\<bar>d - t\<bar> < \<bar>pre ! i - t\<bar>")
    case True
    have "closestAt t (pre @ [d]) (length pre)"
      by (rule closestAt_snoc_new [OF Cons.prems True])
    from Cons.IH [OF this] show ?thesis
      using True by (simp add: getTime_def)
  next
    case False
    have c: "closestAt t (pre @ [d]) i"
      by (rule closestAt_snoc_keep [OF Cons.prems False])
    have "i < length pre" using Cons.prems by (simp add: closestAt_def)
    then have "(pre @ [d]) ! i = pre ! i" by (simp add: nth_append)
    with Cons.IH [OF c] show ?thesis
      using False by (simp add: getTime_def)
  qed
qed

lemma findClosestDate_closestAt:
  assumes "ds \<noteq> []"
  shows "\<exists>k. closestAt t ds k \<and> findClosestDate t ds = Some (ds ! k)"
proof -
  obtain d0 rest where ds: "ds = d0 # rest" using assms by (cases ds) auto
  have "closestAt t [d0] 0" by (simp add: closestAt_def)
  from closestScan_invariant [OF this, of rest]
  show ?thesis by (simp add: ds findClosestDate_def getTime_def)
qed

text \<open>
  Claim C4.  \<open>findClosestDate\<close> returns none exactly on the empty list; on a non-empty
  list it returns the candidate at the smallest index among those at minimal absolute time
  difference from the target, and that candidate is an element of the list.
\<close>

theorem findClosestDate_first_minimum:
  "(findClosestDate t ds = None \<longleftrightarrow> ds = [])
   \<and> (ds \<noteq> [] \<longrightarrow>
        (\<exists>k < length ds.
           findClosestDate t ds = Some (ds ! k)
           \<and> ds ! k \<in> set ds
           \<and> (\<forall>j < length ds. \<bar>ds ! k - t\<bar> \<le> \<bar>ds ! j - t\<bar>)
           \<and> (\<forall>j < k. \<bar>ds ! k - t\<bar> < \<bar>ds ! j - t\<bar>)))"
proof (intro conjI impI)
  show "findClosestDate t ds = None \<longleftrightarrow> ds = []"
    by (simp add: findClosestDate_def split: list.splits)
next
  assume "ds \<noteq> []"
  from findClosestDate_closestAt [OF this, of t]
  obtain k where "closestAt t ds k" "findClosestDate t ds = Some (ds ! k)" by blast
  then show "\<exists>k < length ds.
           findClosestDate t ds = Some (ds ! k)
           \<and> ds ! k \<in> set ds
           \<and> (\<forall>j < length ds. \<bar>ds ! k - t\<bar> \<le> \<bar>ds ! j - t\<bar>)
           \<and> (\<forall>j < k. \<bar>ds ! k - t\<bar> < \<bar>ds ! j - t\<bar>)"
    unfolding closestAt_def by (intro exI [of _ k]) simp
qed

theorem findClosestDate_first_minimum_witness:
  "[DateUTC 2015 2 30, DateUTC 2015 3 1] \<noteq> []
   \<and> findClosestDate (DateUTC 2015 2 31) [DateUTC 2015 2 30, DateUTC 2015 3 1]
       = Some (DateUTC 2015 2 30)
   \<and> \<bar>DateUTC 2015 2 30 - DateUTC 2015 2 31\<bar> = \<bar>DateUTC 2015 3 1 - DateUTC 2015 2 31\<bar>"
proof -
  have v: "DateUTC 2015 2 30 = 1427673600000" "DateUTC 2015 3 1 = 1427846400000"
    "DateUTC 2015 2 31 = 1427760000000"
    by (simp_all add: DateUTC_def MakeDate_def MakeDay_def DayFromYear_def DaysBeforeMonth_def
        DaysInYear_def msPerDay_def)
  let ?ds = "[DateUTC 2015 2 30, DateUTC 2015 3 1]"
  let ?t = "DateUTC 2015 2 31"
  from findClosestDate_first_minimum [of ?t ?ds]
  obtain k where k: "k < length ?ds" "findClosestDate ?t ?ds = Some (?ds ! k)"
    "\<forall>j < k. \<bar>?ds ! k - ?t\<bar> < \<bar>?ds ! j - ?t\<bar>"
    by auto
  have "k = 0"
  proof (rule ccontr)
    assume "k \<noteq> 0"
    then have "k = 1" using k(1) by (auto simp add: less_Suc_eq)
    with k(3) have "\<bar>?ds ! 1 - ?t\<bar> < \<bar>?ds ! 0 - ?t\<bar>" by simp
    then show False by (simp add: v)
  qed
  with k(2) show ?thesis by (simp add: v)
qed

text \<open>
  Not every pair of candidates around a target is a tie: 2015-03-30 is two days before
  2015-04-01 and 2015-04-02 is one day after it, so the later candidate is returned.
\<close>

lemma findClosestDate_nearer_later_candidate:
  "findClosestDate (DateUTC 2015 3 1) [DateUTC 2015 2 30, DateUTC 2015 3 2]
     = Some (DateUTC 2015 3 2)"
  by (simp add: findClosestDate_def getTime_def DateUTC_def MakeDate_def MakeDay_def
      DayFromYear_def DaysBeforeMonth_def DaysInYear_def msPerDay_def)

lemma closestAt_unique:
  assumes "closestAt t ds i" "closestAt t ds k"
  shows "i = k"
proof (rule ccontr)
  assume "i \<noteq> k"
  then consider "i < k" | "k < i" by linarith
  then show False
  proof cases
    case 1
    then have "\<bar>ds ! k - t\<bar> < \<bar>ds ! i - t\<bar>" using assms(2) by (simp add: closestAt_def)
    moreover have "\<bar>ds ! i - t\<bar> \<le> \<bar>ds ! k - t\<bar>" using assms by (simp add: closestAt_def)
    ultimately show False by simp
  next
    case 2
    then have "\<bar>ds ! i - t\<bar> < \<bar>ds ! k - t\<bar>" using assms(1) by (simp add: closestAt_def)
    moreover have "\<bar>ds ! k - t\<bar> \<le> \<bar>ds ! i - t\<bar>" using assms by (simp add: closestAt_def)
    ultimately show False by simp
  qed
qed

lemma findClosestDate_mono:
  assumes "s \<le> e" "findClosestDate s ds = Some cs" "findClosestDate e ds = Some ce"
  shows "cs \<le> ce"
proof (cases "s = e")
  case True
  with assms show ?thesis by simp
next
  case False
  then have lt: "s < e" using assms(1) by simp
  have ne: "ds \<noteq> []" using assms(2) by (auto simp add: findClosestDate_def)
  from findClosestDate_closestAt [OF ne, of s] assms(2)
  obtain i where i: "closestAt s ds i" "cs = ds ! i" by auto
  from findClosestDate_closestAt [OF ne, of e] assms(3)
  obtain k where k: "closestAt e ds k" "ce = ds ! k" by auto
  have "\<bar>cs - s\<bar> \<le> \<bar>ce - s\<bar>" using i k by (simp add: closestAt_def)
  moreover have "\<bar>ce - e\<bar> \<le> \<bar>cs - e\<bar>" using i k by (simp add: closestAt_def)
  ultimately show ?thesis using lt by linarith
qed

lemma findClosestDate_member:
  assumes "findClosestDate t ds = Some c"
  shows "c \<in> set ds"
proof -
  have ne: "ds \<noteq> []" using assms by (auto simp add: findClosestDate_def)
  from findClosestDate_closestAt [OF ne, of t] assms
  show ?thesis by (auto simp add: closestAt_def)
qed

lemma findClosestDate_exact:
  assumes "t \<in> set ds"
  shows "findClosestDate t ds = Some t"
proof -
  have ne: "ds \<noteq> []" using assms by auto
  from findClosestDate_closestAt [OF ne, of t]
  obtain k where k: "closestAt t ds k" "findClosestDate t ds = Some (ds ! k)" by blast
  obtain j where j: "j < length ds" "ds ! j = t" using assms by (auto simp add: in_set_conv_nth)
  have "\<forall>j < length ds. \<bar>ds ! k - t\<bar> \<le> \<bar>ds ! j - t\<bar>"
    using k(1) by (simp add: closestAt_def)
  with j(1) have "\<bar>ds ! k - t\<bar> \<le> \<bar>ds ! j - t\<bar>" by blast
  then have "ds ! k = t" using j(2) by simp
  with k show ?thesis by simp
qed

section \<open>The preset start date\<close>

lemma calculateStartDate_Day:
  assumes "p \<in> {P1m, P3m, P1y, P3y, P5y, P10y, P15y, P20y}"
  shows "Day (calculateStartDate p e)
       = MakeDay (getFullYear e) (getMonth e - monthsBack p) (getDate e)"
proof -
  have m: "0 \<le> MonthFromTime e" "MonthFromTime e < 12" using MonthFromTime_bounds [of e] by simp_all
  have yr: "MakeDay (YearFromTime e - n) (MonthFromTime e) d
      = MakeDay (YearFromTime e) (MonthFromTime e - 12 * n) d" for n d
  proof -
    have "(MonthFromTime e - 12 * n) div 12 = - n"
      using m by (intro int_div_pos_eq [where r = "MonthFromTime e"]) simp_all
    moreover have "(MonthFromTime e - 12 * n) mod 12 = MonthFromTime e"
      using m by (intro int_mod_pos_eq [where q = "- n"]) simp_all
    moreover have "MonthFromTime e div 12 = 0" "MonthFromTime e mod 12 = MonthFromTime e"
      using m by simp_all
    ultimately show ?thesis by (simp add: MakeDay_def)
  qed
  from assms show ?thesis
    using yr [of 1] yr [of 3] yr [of 5] yr [of 10] yr [of 15] yr [of 20]
    by (auto simp add: Day_setMonth Day_setFullYear getFullYear_def getMonth_def getDate_def)
qed

text \<open>
  Claim C7, as amended.  For a calendar-offset preset, \<open>calculateStartDate\<close> keeps the time of
  day and returns the end date's day of month in the month the stated number of months or
  years earlier when that month has such a day; otherwise the excess days roll forward
  into the following month (no clamping).  For ytd it returns January 1 of the end date's
  year.
\<close>

theorem calculateStartDate_calendar:
  "(p \<in> {P1m, P3m, P1y, P3y, P5y, P10y, P15y, P20y} \<longrightarrow>
      (let ty = getFullYear e + (getMonth e - monthsBack p) div 12;
           tm = (getMonth e - monthsBack p) mod 12;
           r = calculateStartDate p e
       in TimeWithinDay r = TimeWithinDay e
          \<and> getFullYear r = ty
          \<and> (if getDate e \<le> DaysInMonth ty tm
             then getMonth r = tm \<and> getDate r = getDate e
             else getMonth r = tm + 1 \<and> getDate r = getDate e - DaysInMonth ty tm)))
   \<and> TimeWithinDay (calculateStartDate Pytd e) = TimeWithinDay e
   \<and> getFullYear (calculateStartDate Pytd e) = getFullYear e
   \<and> getMonth (calculateStartDate Pytd e) = 0
   \<and> getDate (calculateStartDate Pytd e) = 1"
proof (intro conjI impI)
  assume p: "p \<in> {P1m, P3m, P1y, P3y, P5y, P10y, P15y, P20y}"
  have d: "1 \<le> getDate e" "getDate e \<le> 31"
    using DateFromTime_1_31 [of e] by (simp_all add: getDate_def)
  have tw: "TimeWithinDay (calculateStartDate p e) = TimeWithinDay e"
    using p by (auto simp add: TimeWithinDay_setters)
  from MakeDay_components [OF d calculateStartDate_Day [OF p]] tw
  show "let ty = getFullYear e + (getMonth e - monthsBack p) div 12;
           tm = (getMonth e - monthsBack p) mod 12;
           r = calculateStartDate p e
       in TimeWithinDay r = TimeWithinDay e
          \<and> getFullYear r = ty
          \<and> (if getDate e \<le> DaysInMonth ty tm
             then getMonth r = tm \<and> getDate r = getDate e
             else getMonth r = tm + 1 \<and> getDate r = getDate e - DaysInMonth ty tm)"
    by (simp add: Let_def getFullYear_def getMonth_def getDate_def)
next
  show "TimeWithinDay (calculateStartDate Pytd e) = TimeWithinDay e"
    by (simp add: TimeWithinDay_setters)
next
  have d: "1 \<le> DateFromTime e" "DateFromTime e \<le> 31" using DateFromTime_1_31 [of e] by simp_all
  have jan: "YearFromTime (setMonth e 0) = YearFromTime e \<and> MonthFromTime (setMonth e 0) = 0"
    using MakeDay_components [OF d Day_setMonth [of e 0]] d by (simp add: DaysInMonth_def)
  have one: "(1::int) \<le> 1" "(1::int) \<le> 31" by simp_all
  have "Day (setDate (setMonth e 0) 1) = MakeDay (YearFromTime e) 0 1"
    using Day_setDate [of "setMonth e 0" 1] jan by simp
  from MakeDay_components [OF one this]
  have c: "YearFromTime (setDate (setMonth e 0) 1) = YearFromTime e
      \<and> MonthFromTime (setDate (setMonth e 0) 1) = 0
      \<and> DateFromTime (setDate (setMonth e 0) 1) = 1"
    by (simp add: DaysInMonth_def)
  show "getFullYear (calculateStartDate Pytd e) = getFullYear e"
    "getMonth (calculateStartDate Pytd e) = 0"
    "getDate (calculateStartDate Pytd e) = 1"
    using c by (simp_all add: getFullYear_def getMonth_def getDate_def)
qed

lemma components_2015_03_31:
  "getFullYear (DateUTC 2015 2 31) = 2015" "getMonth (DateUTC 2015 2 31) = 2"
  "getDate (DateUTC 2015 2 31) = 31"
  by (rule DateUTC_components; simp add: DaysInMonth_def)+

lemma components_2016_02_29:
  "getFullYear (DateUTC 2016 1 29) = 2016" "getMonth (DateUTC 2016 1 29) = 1"
  "getDate (DateUTC 2016 1 29) = 29"
  by (rule DateUTC_components; simp add: DaysInMonth_def DaysInYear_def)+

text \<open>
  The claim as stated fails: one month before 2015-03-31 is 2015-03-03, not the last day of
  February, and one year before 2016-02-29 is 2015-03-01, not February 28.
\<close>

theorem calculateStartDate_no_clamp:
  "calculateStartDate P1m (DateUTC 2015 2 31) = DateUTC 2015 2 3
   \<and> DateUTC 2015 2 3 \<noteq> DateUTC 2015 1 28
   \<and> calculateStartDate P1y (DateUTC 2016 1 29) = DateUTC 2015 2 1
   \<and> DateUTC 2015 2 1 \<noteq> DateUTC 2015 1 28"
proof -
  have a: "calculateStartDate P1m (DateUTC 2015 2 31) = MakeDate (MakeDay 2015 1 31) 0"
    using components_2015_03_31
    by (simp add: setMonth_def getFullYear_def getMonth_def getDate_def TimeWithinDay_DateUTC)
  have b: "calculateStartDate P1y (DateUTC 2016 1 29) = MakeDate (MakeDay 2015 1 29) 0"
    using components_2016_02_29
    by (simp add: setFullYear_def getFullYear_def getMonth_def getDate_def TimeWithinDay_DateUTC)
  show ?thesis
    unfolding a b
    by (simp add: DateUTC_def MakeDate_def MakeDay_def DayFromYear_def DaysBeforeMonth_def
        DaysInYear_def msPerDay_def)
qed

theorem calculateStartDate_calendar_witness:
  "P1m \<in> {P1m, P3m, P1y, P3y, P5y, P10y, P15y, P20y}
   \<and> getFullYear (calculateStartDate P1m (DateUTC 2015 2 31)) = 2015
   \<and> getMonth (calculateStartDate P1m (DateUTC 2015 2 31)) = 2
   \<and> getDate (calculateStartDate P1m (DateUTC 2015 2 31)) = 3"
  using calculateStartDate_calendar [of P1m "DateUTC 2015 2 31"]
  by (simp add: components_2015_03_31 DaysInMonth_def DaysInYear_def Let_def)

lemma calculateStartDate_le:
  assumes "p \<noteq> Psi" "p \<noteq> Pcustom"
  shows "calculateStartDate p e \<le> e"
proof (cases "p = Pytd")
  case True
  have m: "MonthFromTime e div 12 = 0" "MonthFromTime e mod 12 = MonthFromTime e"
    using MonthFromTime_bounds [of e] by simp_all
  have d: "1 \<le> DateFromTime e" "DateFromTime e \<le> 31" using DateFromTime_1_31 [of e] by simp_all
  have jan: "YearFromTime (setMonth e 0) = YearFromTime e \<and> MonthFromTime (setMonth e 0) = 0"
    using MakeDay_components [OF d Day_setMonth [of e 0]] d by (simp add: DaysInMonth_def)
  have "Day (setDate (setMonth e 0) 1) = MakeDay (YearFromTime e) 0 1"
    using Day_setDate [of "setMonth e 0" 1] jan by simp
  also have "\<dots> = DayFromYear (YearFromTime e)"
    by (simp add: MakeDay_def DaysBeforeMonth_def)
  also have "\<dots> \<le> Day e"
    using DayWithinYear_bounds [of e] by (simp add: DayWithinYear_def)
  finally have "Day (calculateStartDate Pytd e) \<le> Day e" by simp
  moreover have "TimeWithinDay (calculateStartDate Pytd e) = TimeWithinDay e"
    by (simp add: TimeWithinDay_setters)
  ultimately show ?thesis using True le_from_Day by simp
next
  case False
  with assms have p: "p \<in> {P1m, P3m, P1y, P3y, P5y, P10y, P15y, P20y}" by (cases p) simp_all
  then have "0 \<le> monthsBack p" by auto
  then have "MakeDay (getFullYear e) (getMonth e - monthsBack p) (getDate e)
      \<le> MakeDay (getFullYear e) (getMonth e) (getDate e)"
    by (intro MakeDay_month_mono) simp
  then have "Day (calculateStartDate p e) \<le> Day e"
    using calculateStartDate_Day [OF p, of e] Day_decompose [of e]
    by (simp add: getFullYear_def getMonth_def getDate_def)
  moreover have "TimeWithinDay (calculateStartDate p e) = TimeWithinDay e"
    using p by (auto simp add: TimeWithinDay_setters)
  ultimately show ?thesis by (rule le_from_Day)
qed

section \<open>Worked examples\<close>

lemma DateUTC_values:
  "DateUTC 2020 0 1 = 1577836800000"
  "DateUTC 2020 11 1 = 1606780800000"
  "DateUTC 2021 0 1 = 1609459200000"
  "DateUTC 2022 0 1 = 1640995200000"
  by (simp_all add: DateUTC_def MakeDate_def MakeDay_def DayFromYear_def DaysBeforeMonth_def
      DaysInYear_def msPerDay_def)


lemma components_2020_01_01:
  "getFullYear 1577836800000 = 2020" "getMonth 1577836800000 = 0" "getDate 1577836800000 = 1"
  using DateUTC_components [of 0 1 2020] by (simp_all add: DateUTC_values DaysInMonth_def)

lemma components_2020_12_01:
  "getFullYear 1606780800000 = 2020" "getMonth 1606780800000 = 11" "getDate 1606780800000 = 1"
  using DateUTC_components [of 11 1 2020] by (simp_all add: DateUTC_values DaysInMonth_def)

lemma components_2021_01_01:
  "getFullYear 1609459200000 = 2021" "getMonth 1609459200000 = 0" "getDate 1609459200000 = 1"
  using DateUTC_components [of 0 1 2021] by (simp_all add: DateUTC_values DaysInMonth_def)

lemma yearFrac_examples:
  "calculateYearFrac 1577836800000 1609459200000 = Num 1"
  "calculateYearFrac 1577836800000 1606780800000 = Num (11 / 12)"
  "calculateYearFrac 1577836800000 1577836800000 = Num 0"
  by (simp_all add: calculateYearFrac_ordered components_2020_01_01 components_2020_12_01
      components_2021_01_01)

lemmas processData_eval =
  processData_def targetRange_def findClosestDate_def decideAnnualized_def
  computeReturn_def getTime_def Let_def

lemma ex_custom_12_months:
  "processData (DateUTC 2022 0 1)
     exampleSeries
     Pcustom (Some \<lparr>CustomPeriod.startDate = DateUTC 2020 0 1, endDate = DateUTC 2021 0 1\<rparr>)
   = Inr \<lparr>filteredData = exampleSeries,
          startDate = Some (DateUTC 2020 0 1), endDate = Some (DateUTC 2021 0 1),
          startValue = Some (Num 100), endValue = Some (Num 110),
          returnValue = Some (Num (1 / 10)), isAnnualized = True,
          inceptionStartDate = Some (DateUTC 2020 0 1),
          inceptionStartValue = Some (Num 100)\<rparr>"
  unfolding exampleSeries_def DateUTC_values
  by (simp add: processData_eval yearFrac_examples)

lemma ex_custom_11_months:
  "processData (DateUTC 2022 0 1)
     exampleSeries
     Pcustom (Some \<lparr>CustomPeriod.startDate = DateUTC 2020 0 1, endDate = DateUTC 2020 11 1\<rparr>)
   = Inr \<lparr>filteredData =
            [\<lparr>date = DateUTC 2020 0 1, val = Num 100\<rparr>,
             \<lparr>date = DateUTC 2020 11 1, val = Num 105\<rparr>],
          startDate = Some (DateUTC 2020 0 1), endDate = Some (DateUTC 2020 11 1),
          startValue = Some (Num 100), endValue = Some (Num 105),
          returnValue = Some (Num (1 / 20)), isAnnualized = False,
          inceptionStartDate = Some (DateUTC 2020 0 1),
          inceptionStartValue = Some (Num 100)\<rparr>"
  unfolding exampleSeries_def DateUTC_values
  by (simp add: processData_eval yearFrac_examples)



section \<open>The result record\<close>

text \<open>The fields of a non-empty result, read off the definition.\<close>

lemma processData_nonempty_result:
  assumes "processData today data p cp = Inr r" and "startDate r = Some cs" and "endDate r = Some ce"
  shows "filteredData r = filter (\<lambda>item. cs \<le> date item \<and> date item \<le> ce) (sort_key date data)"
    and "filteredData r \<noteq> []"
    and "startValue r = Some (val (hd (filteredData r)))"
    and "endValue r = Some (val (last (filteredData r)))"
    and "isAnnualized r = decideAnnualized p cs ce"
    and "returnValue r =
           Some (computeReturn (decideAnnualized p cs ce) cs ce
                   (val (hd (filteredData r))) (val (last (filteredData r))))"
  using assms
  unfolding processData_def Let_def
  by (auto simp add: emptyResult_def split: if_splits option.splits prod.splits)

text \<open>
  Claim C3.  In a non-empty result the flag \<open>isAnnualized\<close> is true exactly when the period
  is custom and the year fraction of the resolved dates is at least 1, or the period is one
  of 1y, 3y, 5y, 10y, 15y, 20y, si; for 1m, 3m and ytd it is false.
\<close>

theorem processData_isAnnualized:
  "processData today data p cp = Inr r \<Longrightarrow> startDate r = Some cs \<Longrightarrow> endDate r = Some ce \<Longrightarrow>
     isAnnualized r =
       (if p = Pcustom then nge (calculateYearFrac cs ce) (Num 1)
        else p \<in> {P1y, P3y, P5y, P10y, P15y, P20y, Psi})
     \<and> (p \<in> {P1m, P3m, Pytd} \<longrightarrow> \<not> isAnnualized r)"
  using processData_nonempty_result(5) [of today data p cp r cs ce]
  by (auto simp add: decideAnnualized_def)

theorem processData_isAnnualized_witness:
  "processData (DateUTC 2022 0 1) exampleSeries Pcustom
     (Some \<lparr>CustomPeriod.startDate = DateUTC 2020 0 1, endDate = DateUTC 2020 11 1\<rparr>)
   = Inr \<lparr>filteredData =
            [\<lparr>date = DateUTC 2020 0 1, val = Num 100\<rparr>,
             \<lparr>date = DateUTC 2020 11 1, val = Num 105\<rparr>],
          startDate = Some (DateUTC 2020 0 1), endDate = Some (DateUTC 2020 11 1),
          startValue = Some (Num 100), endValue = Some (Num 105),
          returnValue = Some (Num (1 / 20)), isAnnualized = False,
          inceptionStartDate = Some (DateUTC 2020 0 1),
          inceptionStartValue = Some (Num 100)\<rparr>
   \<and> nge (calculateYearFrac (DateUTC 2020 0 1) (DateUTC 2020 11 1)) (Num 1) = False"
  using processData_isAnnualized [OF ex_custom_11_months, of "DateUTC 2020 0 1" "DateUTC 2020 11 1"]
    ex_custom_11_months
  by simp

text \<open>
  Claim C2.  With a nonzero start value, the return of a non-empty result is the compound
  annual growth rate \<open>(endValue / startValue) ^ (1 / years) - 1\<close> when the result is annualized
  and \<open>years\<close>, the year fraction of the resolved dates, is at least 1/12; it is the simple
  return \<open>endValue / startValue - 1\<close> otherwise.
\<close>

theorem processData_returnValue:
  "processData today data p cp = Inr r \<Longrightarrow> startDate r = Some cs \<Longrightarrow> endDate r = Some ce \<Longrightarrow>
   startValue r = Some sv \<Longrightarrow> endValue r = Some ev \<Longrightarrow> sv \<noteq> Num 0 \<Longrightarrow>
     returnValue r =
       Some (if isAnnualized r
             then (if nge (calculateYearFrac cs ce) (Num (1 / 12))
                   then nsub (npow (ndiv ev sv) (ndiv (Num 1) (calculateYearFrac cs ce))) (Num 1)
                   else nsub (ndiv ev sv) (Num 1))
             else nsub (ndiv ev sv) (Num 1))"
  using processData_nonempty_result(3,4,5,6) [of today data p cp r cs ce]
  by (simp add: computeReturn_def Let_def)

theorem processData_returnValue_witness:
  "processData (DateUTC 2022 0 1) exampleSeries Pcustom
     (Some \<lparr>CustomPeriod.startDate = DateUTC 2020 0 1, endDate = DateUTC 2021 0 1\<rparr>)
   = Inr \<lparr>filteredData = exampleSeries,
          startDate = Some (DateUTC 2020 0 1), endDate = Some (DateUTC 2021 0 1),
          startValue = Some (Num 100), endValue = Some (Num 110),
          returnValue = Some (Num (1 / 10)), isAnnualized = True,
          inceptionStartDate = Some (DateUTC 2020 0 1),
          inceptionStartValue = Some (Num 100)\<rparr>
   \<and> Num 100 \<noteq> Num 0
   \<and> nge (calculateYearFrac (DateUTC 2020 0 1) (DateUTC 2021 0 1)) (Num (1 / 12))
   \<and> nsub (npow (ndiv (Num 110) (Num 100))
               (ndiv (Num 1) (calculateYearFrac (DateUTC 2020 0 1) (DateUTC 2021 0 1))))
         (Num 1) = Num (1 / 10)"
  using processData_returnValue [OF ex_custom_12_months,
      of "DateUTC 2020 0 1" "DateUTC 2021 0 1" "Num 100" "Num 110"]
    ex_custom_12_months
  by (simp add: DateUTC_values yearFrac_examples)

text \<open>
  Claim C8.  On an empty series, and on a series with no sample dated at or before the
  clock reading, \<open>processData\<close> returns the empty result (no rows, every field null, not
  annualized) and does not throw.
\<close>

theorem processData_empty:
  "processData today [] p cp =
     Inr \<lparr>filteredData = [], startDate = None, endDate = None, startValue = None,
          endValue = None, returnValue = None, isAnnualized = False,
          inceptionStartDate = None, inceptionStartValue = None\<rparr>
   \<and> ((\<forall>x \<in> set data. today < date x) \<longrightarrow>
        processData today data p cp =
          Inr \<lparr>filteredData = [], startDate = None, endDate = None, startValue = None,
               endValue = None, returnValue = None, isAnnualized = False,
               inceptionStartDate = None, inceptionStartValue = None\<rparr>)"
proof (intro conjI impI)
  show "processData today [] p cp =
     Inr \<lparr>filteredData = [], startDate = None, endDate = None, startValue = None,
          endValue = None, returnValue = None, isAnnualized = False,
          inceptionStartDate = None, inceptionStartValue = None\<rparr>"
    by (simp add: processData_def emptyResult_def)
next
  assume fut: "\<forall>x \<in> set data. today < date x"
  then have "find (\<lambda>item. date item \<le> today) (rev (sort_key date data)) = None"
    by (auto simp add: find_None_iff)
  then show "processData today data p cp =
          Inr \<lparr>filteredData = [], startDate = None, endDate = None, startValue = None,
               endValue = None, returnValue = None, isAnnualized = False,
               inceptionStartDate = None, inceptionStartValue = None\<rparr>"
    by (simp add: processData_def emptyResult_def Let_def)
qed

theorem processData_empty_witness:
  "list_all (\<lambda>x. DateUTC 2019 0 1 < date x) exampleSeries
   \<and> processData (DateUTC 2019 0 1) exampleSeries P1y None = Inr emptyResult"
proof -
  have "DateUTC 2019 0 1 = 1546300800000"
    by (simp add: DateUTC_def MakeDate_def MakeDay_def DayFromYear_def DaysBeforeMonth_def
      DaysInYear_def msPerDay_def)
  then have "\<forall>x \<in> set exampleSeries. DateUTC 2019 0 1 < date x"
    by (simp add: exampleSeries_def DateUTC_values)
  with processData_empty [of "DateUTC 2019 0 1" P1y None exampleSeries]
  show ?thesis by (simp add: emptyResult_def list_all_iff)
qed

section \<open>The filtered window\<close>

text \<open>
  Claim C5 fails on the code for a custom period whose start date is after its end date:
  the resolved start is after the resolved end, the filter keeps no sample, and reading
  \<open>filteredData[0].value\<close> throws.
\<close>

theorem processData_reversed_custom_throws:
  "processData (DateUTC 2022 0 1) exampleSeries Pcustom
     (Some \<lparr>CustomPeriod.startDate = DateUTC 2021 0 1, endDate = DateUTC 2020 0 1\<rparr>)
   = Inl TypeError"
  unfolding exampleSeries_def DateUTC_values
  by (simp add: processData_eval yearFrac_examples)

lemma sorted_window:
  assumes "sorted (map date xs)" and "cs \<in> date ` set xs" and "ce \<in> date ` set xs"
    and "cs \<le> ce"
  defines "F \<equiv> filter (\<lambda>item. date item \<ge> cs \<and> date item \<le> ce) xs"
  shows "F \<noteq> []" and "date (hd F) = cs" and "date (last F) = ce"
proof -
  obtain a where a: "a \<in> set xs" "date a = cs" using assms(2) by auto
  obtain b where b: "b \<in> set xs" "date b = ce" using assms(3) by auto
  have aF: "a \<in> set F" and bF: "b \<in> set F" using a b assms(4) by (simp_all add: F_def)
  then show ne: "F \<noteq> []" by auto
  have sF: "sorted (map date F)" unfolding F_def by (rule sorted_filter [OF assms(1)])
  have inF: "\<And>x. x \<in> set F \<Longrightarrow> cs \<le> date x \<and> date x \<le> ce" by (simp add: F_def)
  have "F = hd F # tl F" using ne by simp
  then have "sorted (map date (hd F # tl F))" using sF by simp
  then have "\<forall>x \<in> set (tl F). date (hd F) \<le> date x" by simp
  then have "date (hd F) \<le> date a"
    using aF \<open>F = hd F # tl F\<close> by (metis order_refl set_ConsD)
  moreover have "cs \<le> date (hd F)" using inF [of "hd F"] ne by simp
  ultimately show "date (hd F) = cs" using a(2) by simp
  have "F = butlast F @ [last F]" using ne by simp
  then have "sorted (map date (butlast F @ [last F]))" using sF by simp
  then have "\<forall>x \<in> set (butlast F). date x \<le> date (last F)"
    by (simp add: sorted_append)
  then have "date b \<le> date (last F)"
    using bF \<open>F = butlast F @ [last F]\<close>
    by (metis Un_iff empty_iff insert_iff list.set(1) list.set(2) order_refl set_append)
  moreover have "date (last F) \<le> ce" using inF [of "last F"] ne by simp
  ultimately show "date (last F) = ce" using b(2) by simp
qed

lemma latest_usable:
  assumes "\<exists>x \<in> set data. date x \<le> today"
  shows "\<exists>l. find (\<lambda>item. date item \<le> today) (rev (sort_key date data)) = Some l
           \<and> l \<in> set data \<and> date l \<le> today"
proof (cases "find (\<lambda>item. date item \<le> today) (rev (sort_key date data))")
  case None
  then show ?thesis using assms by (auto simp add: find_None_iff)
next
  case (Some l)
  then obtain i where i: "i < length (rev (sort_key date data))"
      "date (rev (sort_key date data) ! i) \<le> today" "l = rev (sort_key date data) ! i"
    unfolding find_Some_iff by blast
  from i(1) have "rev (sort_key date data) ! i \<in> set (rev (sort_key date data))"
    by (rule nth_mem)
  then have "l \<in> set data" using i(3) by simp
  with Some i(2,3) show ?thesis by simp
qed

lemma sorted_first_le:
  assumes "l \<in> set data"
  shows "date (sort_key date data ! 0) \<le> date l"
proof -
  let ?xs = "sort_key date data"
  have s: "sorted (map date ?xs)" by (rule sorted_sort_key)
  obtain j where j: "j < length ?xs" "?xs ! j = l"
    using assms by (metis in_set_conv_nth set_sort)
  have "map date ?xs ! 0 \<le> map date ?xs ! j"
    using s j(1) by (intro sorted_nth_mono) simp_all
  moreover have "0 < length ?xs" using j(1) by (cases ?xs) simp_all
  ultimately show ?thesis using j by simp
qed

lemma targetRange_ordered:
  assumes "l \<in> set data"
    and "p \<noteq> Pcustom \<or> (\<exists>c. cp = Some c \<and> CustomPeriod.startDate c \<le> CustomPeriod.endDate c)"
    and "targetRange (sort_key date data) l p cp = (e, s)"
  shows "s \<le> e"
proof (cases "p = Pcustom")
  case True
  with assms(2,3) show ?thesis by (auto simp add: targetRange_def)
next
  case False
  show ?thesis
  proof (cases "p = Psi")
    case True
    with assms(3) sorted_first_le [OF assms(1)] show ?thesis
      by (simp add: targetRange_def)
  next
    case notsi: False
    with False assms(3) calculateStartDate_le [of p "date l"] show ?thesis
      by (auto simp add: targetRange_def)
  qed
qed

text \<open>
  Apart from a reversed custom range the window is as claim C5 describes it: for a preset,
  and for a custom period whose start is not after its end, the filtered rows are not
  empty, the first is dated at the resolved start and the last at the resolved end.
\<close>

lemma processData_window:
  assumes "\<exists>x \<in> set data. date x \<le> today"
    and "p \<noteq> Pcustom \<or> (\<exists>c. cp = Some c \<and> CustomPeriod.startDate c \<le> CustomPeriod.endDate c)"
  shows "\<exists>r cs ce. processData today data p cp = Inr r
           \<and> startDate r = Some cs \<and> endDate r = Some ce
           \<and> filteredData r \<noteq> []
           \<and> date (hd (filteredData r)) = cs
           \<and> date (last (filteredData r)) = ce"
proof -
  let ?xs = "sort_key date data"
  let ?ds = "map date ?xs"
  have ne: "data \<noteq> []" using assms(1) by auto
  then have dne: "?ds \<noteq> []" by (metis length_map length_sort list.size(3) length_0_conv)
  from latest_usable [OF assms(1)]
  obtain l where l: "find (\<lambda>item. date item \<le> today) (rev ?xs) = Some l" "l \<in> set data"
    by blast
  obtain e s where es: "targetRange ?xs l p cp = (e, s)" by (cases "targetRange ?xs l p cp")
  have le: "s \<le> e" by (rule targetRange_ordered [OF l(2) assms(2) es])
  obtain cs where cs: "findClosestDate s ?ds = Some cs"
    using findClosestDate_closestAt [OF dne, of s] by blast
  obtain ce where ce: "findClosestDate e ?ds = Some ce"
    using findClosestDate_closestAt [OF dne, of e] by blast
  have ord: "cs \<le> ce" by (rule findClosestDate_mono [OF le cs ce])
  have mem: "cs \<in> date ` set ?xs" "ce \<in> date ` set ?xs"
    using findClosestDate_member [OF cs] findClosestDate_member [OF ce] by simp_all
  let ?F = "filter (\<lambda>item. date item \<ge> cs \<and> date item \<le> ce) ?xs"
  have w: "?F \<noteq> []" "date (hd ?F) = cs" "date (last ?F) = ce"
    using sorted_window [OF sorted_sort_key mem ord] by simp_all
  show ?thesis
    using ne l(1) es cs ce w by (simp add: processData_def Let_def)
qed

section \<open>The zero baseline\<close>

lemma ndiv_zero_baseline: "\<not> isFinite (ndiv ev (Num 0))"
  by (cases ev) (simp_all add: isFinite_def)

lemma nsub_not_finite: "\<not> isFinite x \<Longrightarrow> \<not> isFinite (nsub x (Num 1))"
  by (cases x) (simp_all add: isFinite_def)

lemma npow_not_finite: "\<not> isFinite x \<Longrightarrow> 0 < e \<Longrightarrow> \<not> isFinite (npow x (Num e))"
  by (cases x) (simp_all add: isFinite_def)

lemma computeReturn_zero_baseline: "\<not> isFinite (computeReturn ann cs ce (Num 0) ev)"
proof -
  obtain y where y: "calculateYearFrac cs ce = Num y"
    using calculateYearFrac_finite by blast
  have q: "\<not> isFinite (ndiv ev (Num 0))" by (rule ndiv_zero_baseline)
  show ?thesis
  proof (cases "ann \<and> 1 / 12 \<le> y")
    case True
    then have "0 < 1 / y" by simp
    then have "\<not> isFinite (npow (ndiv ev (Num 0)) (Num (1 / y)))"
      using q by (intro npow_not_finite)
    then have "\<not> isFinite (nsub (npow (ndiv ev (Num 0)) (Num (1 / y))) (Num 1))"
      by (rule nsub_not_finite)
    then show ?thesis using True y by (simp add: computeReturn_def)
  next
    case False
    have "\<not> isFinite (nsub (ndiv ev (Num 0)) (Num 1))"
      using q by (rule nsub_not_finite)
    then show ?thesis using False y by (auto simp add: computeReturn_def)
  qed
qed

text \<open>The rows of every returned record are the resolved window.\<close>

lemma processData_resolvedWindow:
  assumes "processData today data p cp = Inr r"
  shows "filteredData r = resolvedWindow today data p cp"
  using assms unfolding processData_def resolvedWindow_def Let_def
  by (auto simp add: emptyResult_def split: if_splits option.splits prod.splits)

lemma processData_completes:
  assumes "resolvedWindow today data p cp \<noteq> []"
  shows "\<exists>r cs ce. processData today data p cp = Inr r
           \<and> startDate r = Some cs \<and> endDate r = Some ce
           \<and> filteredData r = resolvedWindow today data p cp"
  using assms unfolding processData_def resolvedWindow_def Let_def
  by (auto split: if_splits option.splits prod.splits)

text \<open>
  Claim C6, as amended.  When the resolved window starts with a sample of value 0,
  \<open>processData\<close> signals no error: the call completes with a result record whose start
  value is 0, and the \<open>returnValue\<close> of that record is Infinity, -Infinity or NaN.
\<close>

theorem processData_zero_baseline:
  "resolvedWindow today data p cp = x # xs \<Longrightarrow> val x = Num 0 \<Longrightarrow>
     (\<exists>r v. processData today data p cp = Inr r
        \<and> filteredData r = x # xs
        \<and> startValue r = Some (Num 0)
        \<and> returnValue r = Some v \<and> v \<in> {PosInf, NegInf, NaN})"
proof -
  assume w: "resolvedWindow today data p cp = x # xs" and z: "val x = Num 0"
  from w have "resolvedWindow today data p cp \<noteq> []" by simp
  from processData_completes [OF this]
  obtain r cs ce where r: "processData today data p cp = Inr r"
    and d: "startDate r = Some cs" "endDate r = Some ce"
    and f: "filteredData r = x # xs"
    using w by auto
  have sv: "startValue r = Some (Num 0)"
    using processData_nonempty_result(3) [OF r d] f z by simp
  let ?v = "computeReturn (decideAnnualized p cs ce) cs ce (Num 0) (val (last (filteredData r)))"
  have rv: "returnValue r = Some ?v"
    using processData_nonempty_result(6) [OF r d] f z by simp
  have "\<not> isFinite ?v" by (rule computeReturn_zero_baseline)
  then have "?v \<in> {PosInf, NegInf, NaN}" by (cases ?v) (simp_all add: isFinite_def)
  with r f sv rv show ?thesis by blast
qed

text \<open>
  The claim as stated fails: on a zero baseline the call returns a record whose
  \<open>returnValue\<close> is Infinity.
\<close>

theorem processData_zero_baseline_returns_infinity:
  "processData (DateUTC 2022 0 1) zeroBaselineSeries Pcustom
     (Some \<lparr>CustomPeriod.startDate = DateUTC 2020 0 1, endDate = DateUTC 2021 0 1\<rparr>)
   = Inr \<lparr>filteredData = zeroBaselineSeries,
          startDate = Some (DateUTC 2020 0 1), endDate = Some (DateUTC 2021 0 1),
          startValue = Some (Num 0), endValue = Some (Num 110),
          returnValue = Some PosInf, isAnnualized = True,
          inceptionStartDate = Some (DateUTC 2020 0 1),
          inceptionStartValue = Some (Num 0)\<rparr>"
  unfolding zeroBaselineSeries_def DateUTC_values
  by (simp add: processData_eval yearFrac_examples)

text \<open>
  A custom range given in reverse order, 2020-03-01 to 2020-02-01: both dates resolve to the
  sample of 2020-01-01, whose value is 0.
\<close>

lemma DateUTC_2020_feb_mar:
  "DateUTC 2020 1 1 = 1580515200000" "DateUTC 2020 2 1 = 1583020800000"
  by (simp_all add: DateUTC_def MakeDate_def MakeDay_def DayFromYear_def DaysBeforeMonth_def
      DaysInYear_def msPerDay_def)

lemma ex_zero_baseline_window:
  "resolvedWindow (DateUTC 2022 0 1) zeroBaselineSeries Pcustom
     (Some \<lparr>CustomPeriod.startDate = DateUTC 2020 2 1, endDate = DateUTC 2020 1 1\<rparr>)
   = [\<lparr>date = DateUTC 2020 0 1, val = Num 0\<rparr>]"
  unfolding zeroBaselineSeries_def DateUTC_values DateUTC_2020_feb_mar
  by (simp add: resolvedWindow_def targetRange_def findClosestDate_def getTime_def Let_def)

theorem processData_zero_baseline_witness:
  "resolvedWindow (DateUTC 2022 0 1) zeroBaselineSeries Pcustom
     (Some \<lparr>CustomPeriod.startDate = DateUTC 2020 2 1, endDate = DateUTC 2020 1 1\<rparr>)
   = [\<lparr>date = DateUTC 2020 0 1, val = Num 0\<rparr>]
   \<and> val \<lparr>date = DateUTC 2020 0 1, val = Num 0\<rparr> = Num 0
   \<and> (\<exists>r v. processData (DateUTC 2022 0 1) zeroBaselineSeries Pcustom
          (Some \<lparr>CustomPeriod.startDate = DateUTC 2020 2 1, endDate = DateUTC 2020 1 1\<rparr>) = Inr r
        \<and> filteredData r = [\<lparr>date = DateUTC 2020 0 1, val = Num 0\<rparr>]
        \<and> startValue r = Some (Num 0)
        \<and> returnValue r = Some v \<and> v \<in> {PosInf, NegInf, NaN})"
  using processData_zero_baseline [OF ex_zero_baseline_window] ex_zero_baseline_window
  by simp

section \<open>The clock\<close>





section \<open>The indexed chart rows\<close>

text \<open>
  Claim C10.  For a non-empty filtered series (a part of the full series) whose first value
  is finite and nonzero, the chart rows are produced, one per sample, each with
  \<open>indexedValue = value / baseline * 100\<close> where the baseline is the first sample's value,
  and the first row's \<open>indexedValue\<close> is exactly 100.
\<close>

theorem chartData_indexed:
  "data \<noteq> [] \<Longrightarrow> set data \<subseteq> set fullDataset \<Longrightarrow> val (data ! 0) = Num b \<Longrightarrow> b \<noteq> 0 \<Longrightarrow>
     (\<exists>pts. chartData data fullDataset = Inr pts
        \<and> length pts = length data
        \<and> (\<forall>i < length data.
              indexedValue (pts ! i) = nmul (ndiv (val (data ! i)) (Num b)) (Num 100))
        \<and> indexedValue (pts ! 0) = Num 100)"
proof -
  assume ne: "data \<noteq> []" and sub: "set data \<subseteq> set fullDataset"
    and b: "val (data ! 0) = Num b" "b \<noteq> 0"
  have "fullDataset \<noteq> []" using ne sub by auto
  then have "set (sort_key date fullDataset) \<noteq> {}" by simp
  then have full: "sort_key date fullDataset \<noteq> []" by (simp del: set_sort)
  obtain pts where pts: "chartData data fullDataset = Inr pts" "length pts = length data"
    and ix: "\<forall>i < length data.
              indexedValue (pts ! i) = nmul (ndiv (val (data ! i)) (Num b)) (Num 100)"
    using ne full b(1) by (simp add: chartData_def Let_def)
  have "0 < length data" using ne by simp
  with ix have "indexedValue (pts ! 0) = nmul (ndiv (val (data ! 0)) (Num b)) (Num 100)"
    by blast
  then have "indexedValue (pts ! 0) = Num 100" using b by simp
  with pts ix show ?thesis by blast
qed

theorem chartData_indexed_witness:
  "exampleSeries \<noteq> [] \<and> set exampleSeries \<subseteq> set exampleSeries
   \<and> val (exampleSeries ! 0) = Num 100 \<and> (100::real) \<noteq> 0
   \<and> (\<exists>pts. chartData exampleSeries exampleSeries = Inr pts
         \<and> length pts = 3
         \<and> indexedValue (pts ! 0) = Num 100
         \<and> indexedValue (pts ! 1) = Num 105
         \<and> indexedValue (pts ! 2) = Num 110)"
proof -
  have a: "exampleSeries \<noteq> []" "val (exampleSeries ! 0) = Num 100"
    "val (exampleSeries ! 1) = Num 105" "val (exampleSeries ! 2) = Num 110"
    "length exampleSeries = 3"
    by (simp_all add: exampleSeries_def)
  from chartData_indexed [OF a(1) subset_refl a(2)]
  obtain pts where pts: "chartData exampleSeries exampleSeries = Inr pts"
    "length pts = length exampleSeries"
    "\<forall>i < length exampleSeries.
        indexedValue (pts ! i) = nmul (ndiv (val (exampleSeries ! i)) (Num 100)) (Num 100)"
    "indexedValue (pts ! 0) = Num 100"
    by auto
  have "indexedValue (pts ! 1) = Num 105" "indexedValue (pts ! 2) = Num 110"
    using pts(3) a by simp_all
  with pts a show ?thesis by simp
qed

end
